theory Spec2Isabelle
  imports Main "HOL-Library.Word" "HOL-Library.Monad_Syntax"
begin

section \<open>Strings, byte slices and regular expressions\<close>

text \<open>
  A Go string is a sequence of bytes: \<open>len\<close> counts bytes and \<open>s[:k]\<close> cuts at a byte
  offset. \<^typ>\<open>string\<close> is a list of 8-bit characters, so it is the same data. Go's
  \<open>int\<close> is read as \<^typ>\<open>int\<close>: every number below is a length or a small constant, far
  from the 64-bit range.

  A run-time panic (slice bound out of range, index out of range, nil dereference,
  assignment to an entry of a nil map) is the value \<open>None\<close> of an option type.
\<close>

abbreviation len :: "string \<Rightarrow> int" where
  "len s \<equiv> int (length s)"

definition slice_to :: "string \<Rightarrow> int \<Rightarrow> string option" where
  \<comment> \<open>\<open>s[:k]\<close>, which panics unless \<open>0 \<le> k \<le> len(s)\<close>\<close>
  "slice_to s k = (if 0 \<le> k \<and> k \<le> len s then Some (take (nat k) s) else None)"

definition index_byte :: "string \<Rightarrow> int \<Rightarrow> char option" where
  \<comment> \<open>\<open>s[i]\<close>, which panics unless \<open>0 \<le> i < len(s)\<close>\<close>
  "index_byte s i = (if 0 \<le> i \<and> i < len s then Some (s ! nat i) else None)"

definition string_of_byte :: "char \<Rightarrow> string" where
  \<comment> \<open>the conversion \<open>string(b)\<close> of a byte: the UTF-8 encoding of the code point \<open>b\<close>,
      one byte below 128 and two bytes from 128 on\<close>
  "string_of_byte b =
     (let n = (of_char b :: nat)
      in if n < 128 then [b] else [char_of (192 + n div 64), char_of (128 + n mod 64)])"

text \<open>
  A compiled \<open>*regexp.Regexp\<close> is used through \<open>MatchString\<close> only, so it is modelled by
  the set of strings it matches.
\<close>

type_synonym Regexp = "string \<Rightarrow> bool"

definition MatchString :: "Regexp \<Rightarrow> string \<Rightarrow> bool" where
  "MatchString r s = r s"

definition alnum :: "char \<Rightarrow> bool" where
  \<comment> \<open>the character class \<open>[a-zA-Z0-9]\<close>\<close>
  "alnum c =
     (let n = (of_char c :: nat)
      in (97 \<le> n \<and> n \<le> 122) \<or> (65 \<le> n \<and> n \<le> 90) \<or> (48 \<le> n \<and> n \<le> 57))"

definition isAlphanumeric :: Regexp where
  \<comment> \<open>\<open>regexp.MustCompile(`^[a-zA-Z0-9]*$`)\<close>: the whole text consists of class members.
      A byte from 128 on is part of a rune outside the class, or of an invalid
      encoding, and neither is matched.\<close>
  "isAlphanumeric s = list_all alnum s"

section \<open>Configuration documents\<close>

text \<open>
  Modelled from the spec: the declarations of \<open>ReleaseBuildConfiguration\<close> and
  \<open>ProjectDirectoryImageBuildStepConfiguration\<close> (package \<open>pkg/api\<close>) are not among the
  sources. The specification's data model gives the attributes the program reads: the
  organization, repository and branch of a document, its ordered sequence of build steps,
  and the destination name of a build step. The field names are those the program uses.
\<close>

record Metadata =
  Org :: string
  Repo :: string
  Branch :: string

record ProjectDirectoryImageBuildStepConfiguration =
  To :: string

record ReleaseBuildConfiguration =
  Metadata :: Metadata
  Images :: "ProjectDirectoryImageBuildStepConfiguration list"

record Config =
  ReleaseBuildConfiguration :: ReleaseBuildConfiguration
  Path :: string

record DockerfileApplicationConfig =
  ApplicationName :: string
  ReleaseBuildConfiguration :: ReleaseBuildConfiguration
  Path :: string
  ProjectDirectoryImageBuildStepConfiguration :: ProjectDirectoryImageBuildStepConfiguration

definition dockerfileComponentKey ::
    "ReleaseBuildConfiguration \<Rightarrow> ProjectDirectoryImageBuildStepConfiguration \<Rightarrow> string" where
  \<comment> \<open>\<open>fmt.Sprintf("%s-%s-%s-%s", cfg.Metadata.Org, cfg.Metadata.Repo, cfg.Metadata.Branch, ib.To)\<close>\<close>
  "dockerfileComponentKey cfg ib =
     Org (Metadata cfg) @ ''-'' @ Repo (Metadata cfg) @ ''-'' @ Branch (Metadata cfg) @ ''-'' @ To ib"

section \<open>The name generator\<close>

definition longest :: int where
  "longest = 63"

definition md5Len :: int where
  "md5Len = 32"

definition head :: int where
  \<comment> \<open>how much to truncate to fit the hash\<close>
  "head = longest - md5Len"

text \<open>
  \<open>md5.Sum\<close> is library code. It enters the model as a parameter \<open>md5_Sum\<close> whose result
  type is the \<open>[16]byte\<close> of the library, read as one 128-bit value with byte 0 on top;
  every theorem below holds for all such functions. \<open>fmt_x\<close> is \<open>fmt.Sprintf("%x", h)\<close>
  on such an array: two lower-case hexadecimal digits for each byte, byte 0 first.
\<close>

type_synonym digest = "128 word"

definition hexdigit :: "nat \<Rightarrow> char" where
  "hexdigit n = ''0123456789abcdef'' ! (n mod 16)"

definition fmt_x :: "digest \<Rightarrow> string" where
  "fmt_x h = map (\<lambda>i. hexdigit (unat (drop_bit (4 * (31 - i)) h))) [0..<32]"

function makeValidName_loop :: "string \<Rightarrow> int \<Rightarrow> string option" where
  "makeValidName_loop n i =
     (case index_byte n i of
        None \<Rightarrow> None
      | Some b \<Rightarrow>
          if \<not> MatchString isAlphanumeric (string_of_byte b)
          then (case slice_to n (len n - 1) of
                  None \<Rightarrow> None
                | Some n' \<Rightarrow> makeValidName_loop n' (i - 1))
          else Some n)"
  by pat_completeness auto
termination
  by (relation "measure (\<lambda>(n, i). nat (i + 1))")
     (auto simp: index_byte_def split: if_splits)

definition makeValidName :: "string \<Rightarrow> string option" where
  \<comment> \<open>\<open>for i := len(n) - 1; !isAlphanumeric.MatchString(string(n[i])); i-- { n = n[:len(n)-1] }\<close>\<close>
  "makeValidName n = makeValidName_loop n (len n - 1)"

definition Name :: "(string \<Rightarrow> digest) \<Rightarrow> string \<Rightarrow> string \<Rightarrow> string option" where
  "Name md5_Sum parent suffix =
     (if len parent > longest - len suffix then
        if head - len suffix \<le> 0 then do {
          let h = md5_Sum (parent @ suffix);
          parent' \<leftarrow> (if head < len parent then slice_to parent head else Some parent);
          let ret = parent' @ fmt_x h;
          let d = longest - len ret;
          ret' \<leftarrow> (if d > 0 then do { t \<leftarrow> slice_to suffix d; Some (ret @ t) } else Some ret);
          makeValidName ret'
        } else do {
          t \<leftarrow> slice_to parent (head - len suffix);
          let n = t @ fmt_x (md5_Sum parent);
          Some (n @ suffix)
        }
      else Some (parent @ suffix))"

section \<open>The path filter of \<open>collectConfigurations\<close>\<close>

text \<open>
  The two nested loops over \<open>includes\<close> and \<open>excludes\<close>; the last argument is the
  variable \<open>shouldInclude\<close>.
\<close>

fun excludes_loop :: "Regexp list \<Rightarrow> string \<Rightarrow> bool \<Rightarrow> bool" where
  "excludes_loop [] matchablePath b = b"
| "excludes_loop (x # xs) matchablePath b =
     excludes_loop xs matchablePath (if MatchString x matchablePath then False else b)"

fun includes_loop :: "Regexp list \<Rightarrow> Regexp list \<Rightarrow> string \<Rightarrow> bool \<Rightarrow> bool" where
  "includes_loop [] excludes matchablePath b = b"
| "includes_loop (i # is) excludes matchablePath b =
     includes_loop is excludes matchablePath
       (excludes_loop excludes matchablePath (if MatchString i matchablePath then True else b))"

definition shouldInclude :: "Regexp list \<Rightarrow> Regexp list \<Rightarrow> string \<Rightarrow> bool" where
  "shouldInclude includes excludes matchablePath =
     includes_loop includes excludes matchablePath False"

section \<open>Discovery\<close>

text \<open>
  An \<open>error\<close> value is either produced by a library call (and identified by its message)
  or built by \<open>fmt.Errorf\<close> from a format, its string arguments and the error wrapped
  by \<open>%w\<close>.
\<close>

datatype error =
  External string
| Errorf string "string list" error

text \<open>
  The observable effects of discovery are kept in a trace: a line written by
  \<open>log.Printf\<close> (format and arguments) and a file read by \<open>os.ReadFile\<close>.
\<close>

datatype event =
  Printf string "string list"
| ReadFile string

text \<open>
  The library functions that discovery calls are parameters of the model, collected in
  one record. \<open>filepath.Rel\<close> returns a string and an error, as in Go; the other three
  return an error or a value.
\<close>

record library =
  filepath_Rel :: "string \<Rightarrow> string \<Rightarrow> string \<times> error option"
  os_ReadFile :: "string \<Rightarrow> error + string"
  gyaml_YAMLToJSON :: "string \<Rightarrow> error + string"
  json_Unmarshal :: "string \<Rightarrow> error + ReleaseBuildConfiguration"

definition parseConfig ::
    "library \<Rightarrow> string \<Rightarrow> event list \<times> (error + ReleaseBuildConfiguration)" where
  "parseConfig lib path =
     ([ReadFile path],
      (case os_ReadFile lib path of
         Inl err \<Rightarrow> Inl (Errorf ''failed to read file %q: %w'' [path] err)
       | Inr y \<Rightarrow>
           (case gyaml_YAMLToJSON lib y of
              Inl err \<Rightarrow> Inl (Errorf ''failed to convert YAML to JSON: %w'' [] err)
            | Inr j \<Rightarrow>
                (case json_Unmarshal lib j of
                   Inl err \<Rightarrow>
                     Inl (Errorf ''failed to unmarshal file %q into %T: %w''
                            [path, ''*api.ReleaseBuildConfiguration''] err)
                 | Inr jobConfig \<Rightarrow> Inr jobConfig))))"

text \<open>
  \<open>filepath.WalkDir\<close> is library code. Its model takes the calls it would make on the
  tree, in its order: each is a path with its \<open>fs.DirEntry\<close>, which is nil when the root
  cannot be examined. The walk stops at the first call of the function that returns an
  error (the function below never returns \<open>SkipDir\<close> or \<open>SkipAll\<close>) or panics.
\<close>

record DirEntry =
  IsDir :: bool

record visit =
  v_path :: string
  v_info :: "DirEntry option"

fun WalkDir ::
    "visit list \<Rightarrow> (visit \<Rightarrow> 's \<Rightarrow> (error option \<times> 's) option) \<Rightarrow> 's \<Rightarrow>
     (error option \<times> 's) option" where
  "WalkDir [] fn s = Some (None, s)"
| "WalkDir (v # vs) fn s =
     (case fn v s of
        None \<Rightarrow> None
      | Some (Some err, s') \<Rightarrow> Some (Some err, s')
      | Some (None, s') \<Rightarrow> WalkDir vs fn s')"

record walk_state =
  w_configs :: "Config list"
  w_trace :: "event list"

definition walkFn ::
    "library \<Rightarrow> string \<Rightarrow> Regexp list \<Rightarrow> Regexp list \<Rightarrow> visit \<Rightarrow> walk_state \<Rightarrow>
     (error option \<times> walk_state) option" where
  "walkFn lib openshiftReleasePath includes excludes v s =
     (case v_info v of
        None \<Rightarrow> None
      | Some info \<Rightarrow>
          if IsDir info then Some (None, s)
          else
            (case filepath_Rel lib openshiftReleasePath (v_path v) of
               (matchablePath, Some err) \<Rightarrow>
                 Some (Some (Errorf ''failed to get relative path for %q (base path %q): %w''
                               [matchablePath, openshiftReleasePath] err), s)
             | (matchablePath, None) \<Rightarrow>
                 if \<not> shouldInclude includes excludes matchablePath then Some (None, s)
                 else
                   (let s1 = s\<lparr>w_trace := w_trace s @ [Printf ''Parsing file %q\<newline>'' [v_path v]]\<rparr>;
                        (events, result) = parseConfig lib (v_path v);
                        s2 = s1\<lparr>w_trace := w_trace s1 @ events\<rparr>
                    in case result of
                         Inl err \<Rightarrow>
                           Some (Some (Errorf ''failed to parse CI config in %q: %w''
                                         [v_path v] err), s2)
                       | Inr config \<Rightarrow>
                           Some (None,
                             s2\<lparr>w_configs := w_configs s2 @
                                  [\<lparr>Config.ReleaseBuildConfiguration = config,
                                    Path = v_path v\<rparr>]\<rparr>))))"

definition collectConfigurations ::
    "library \<Rightarrow> visit list \<Rightarrow> string \<Rightarrow> Regexp list \<Rightarrow> Regexp list \<Rightarrow>
     ((Config list \<times> error option) \<times> event list) option" where
  "collectConfigurations lib tree openshiftReleasePath includes excludes =
     (case WalkDir tree (walkFn lib openshiftReleasePath includes excludes)
             \<lparr>w_configs = [], w_trace = []\<rparr> of
        None \<Rightarrow> None
      | Some (Some err, s) \<Rightarrow>
          Some (([], Some (Errorf ''failed while walking directory %q: %w\<newline>''
                             [openshiftReleasePath] err)),
                w_trace s)
      | Some (None, s) \<Rightarrow> Some ((w_configs s, None), w_trace s))"

section \<open>Keys\<close>

definition ReplaceAll :: "string \<Rightarrow> char \<Rightarrow> string \<Rightarrow> string" where
  \<comment> \<open>\<open>strings.ReplaceAll(s, old, new)\<close> for a pattern \<open>old\<close> of one byte\<close>
  "ReplaceAll s old new = concat (map (\<lambda>c. if c = old then new else [c]) s)"

definition sanitize :: "string \<Rightarrow> string" where
  "sanitize in' = ReplaceAll (ReplaceAll in' (CHR ''.'') '''') (CHR '' '') ''-''"

definition truncate :: "(string \<Rightarrow> digest) \<Rightarrow> string \<Rightarrow> string option" where
  "truncate md5_Sum in' = Name md5_Sum in' ''''"

section \<open>The grouping loop of \<open>run\<close>\<close>

fun ignore :: "Regexp list \<Rightarrow> string \<Rightarrow> bool" where
  \<comment> \<open>the variable \<open>ignore\<close> after the loop over \<open>excludeImages\<close>, which breaks at the
      first match\<close>
  "ignore [] to = False"
| "ignore (r # rs) to = (if MatchString r to then True else ignore rs to)"

type_synonym applications = "string \<rightharpoonup> (string \<rightharpoonup> DockerfileApplicationConfig)"

fun images_loop ::
    "Regexp list \<Rightarrow> string \<Rightarrow> string \<Rightarrow> Config \<Rightarrow>
     ProjectDirectoryImageBuildStepConfiguration list \<Rightarrow> applications \<Rightarrow> applications option" where
  "images_loop excludeImages applicationName appKey c [] apps = Some apps"
| "images_loop excludeImages applicationName appKey c (ib # ibs) apps =
     (if ignore excludeImages (To ib)
      then images_loop excludeImages applicationName appKey c ibs apps
      else (case apps appKey of
              None \<Rightarrow> None
            | Some components \<Rightarrow>
                images_loop excludeImages applicationName appKey c ibs
                  (apps(appKey \<mapsto>
                     components(dockerfileComponentKey (Config.ReleaseBuildConfiguration c) ib \<mapsto>
                       \<lparr>ApplicationName = applicationName,
                        ReleaseBuildConfiguration = Config.ReleaseBuildConfiguration c,
                        Path = Config.Path c,
                        ProjectDirectoryImageBuildStepConfiguration = ib\<rparr>)))))"

fun configs_loop ::
    "(string \<Rightarrow> digest) \<Rightarrow> Regexp list \<Rightarrow> string \<Rightarrow> Config list \<Rightarrow> applications \<Rightarrow>
     applications option" where
  "configs_loop md5_Sum excludeImages applicationName [] apps = Some apps"
| "configs_loop md5_Sum excludeImages applicationName (c # cs) apps = do {
     appKey \<leftarrow> truncate md5_Sum (sanitize applicationName);
     let apps = (if apps appKey = None then apps(appKey \<mapsto> Map.empty) else apps);
     apps \<leftarrow> images_loop excludeImages applicationName appKey c
               (Images (Config.ReleaseBuildConfiguration c)) apps;
     configs_loop md5_Sum excludeImages applicationName cs apps
   }"

definition run_applications ::
    "(string \<Rightarrow> digest) \<Rightarrow> Regexp list \<Rightarrow> string \<Rightarrow> Config list \<Rightarrow> applications option" where
  \<comment> \<open>the map \<open>applications\<close> after the loop over \<open>configs\<close>\<close>
  "run_applications md5_Sum excludeImages applicationName configs =
     configs_loop md5_Sum excludeImages applicationName configs Map.empty"

subsection \<open>The writes of the grouping loop, in order\<close>

definition component_of :: "string \<Rightarrow> Config \<Rightarrow> ProjectDirectoryImageBuildStepConfiguration \<Rightarrow>
    DockerfileApplicationConfig" where
  "component_of applicationName c ib =
     \<lparr>ApplicationName = applicationName,
      ReleaseBuildConfiguration = Config.ReleaseBuildConfiguration c,
      Path = Config.Path c,
      ProjectDirectoryImageBuildStepConfiguration = ib\<rparr>"

definition step_writes :: "Regexp list \<Rightarrow> string \<Rightarrow> Config \<Rightarrow>
    ProjectDirectoryImageBuildStepConfiguration list \<Rightarrow> (string \<times> DockerfileApplicationConfig) list" where
  "step_writes excludeImages applicationName c ibs =
     map (\<lambda>ib. (dockerfileComponentKey (Config.ReleaseBuildConfiguration c) ib,
                component_of applicationName c ib))
       (filter (\<lambda>ib. \<not> (\<exists>r\<in>set excludeImages. MatchString r (To ib))) ibs)"

definition all_writes :: "Regexp list \<Rightarrow> string \<Rightarrow> Config list \<Rightarrow>
    (string \<times> DockerfileApplicationConfig) list" where
  "all_writes excludeImages applicationName configs =
     concat (map (\<lambda>c. step_writes excludeImages applicationName c
                         (Images (Config.ReleaseBuildConfiguration c))) configs)"

section \<open>Auxiliary definitions for the name generator\<close>

text \<open>
  The string that \<open>Name\<close> hands to \<open>makeValidName\<close> in the branch of a long suffix:
  the head of the parent, the digest in hexadecimal, and the \<open>d = 63 - len(ret)\<close> first
  bytes of the suffix.
\<close>

definition long_ret :: "(string \<Rightarrow> digest) \<Rightarrow> string \<Rightarrow> string \<Rightarrow> string" where
  "long_ret md5_Sum parent suffix =
     take 31 parent @ fmt_x (md5_Sum (parent @ suffix)) @ take (31 - length parent) suffix"

subsection \<open>The specification's reading of the long-suffix branch\<close>

text \<open>
  These three definitions follow the words of the specification, not the code: strip the
  trailing characters that are not alphanumeric; if the string is shorter than 63, append a
  prefix of the suffix to fill the remaining space; the head of the base cut to 31
  characters followed by the digest in hexadecimal, padded and stripped.
\<close>

definition strip_trailer :: "string \<Rightarrow> string" where
  "strip_trailer s = rev (dropWhile (\<lambda>c. \<not> alnum c) (rev s))"

definition spec_pad :: "string \<Rightarrow> string \<Rightarrow> string" where
  "spec_pad ret suffix = (if length ret < 63 then ret @ take (63 - length ret) suffix else ret)"

definition spec_long_name :: "(string \<Rightarrow> digest) \<Rightarrow> string \<Rightarrow> string \<Rightarrow> string" where
  "spec_long_name md5_Sum base suffix =
     strip_trailer (spec_pad (take 31 base @ fmt_x (md5_Sum (base @ suffix))) suffix)"

section \<open>Values for concrete runs\<close>

text \<open>
  Evaluating \<open>Name\<close> on concrete strings needs some function in the place of
  \<open>md5.Sum\<close>. The runs below take the function that is constantly zero, whose digest
  prints as 32 zeros; the real digest would print other hexadecimal digits in the same
  places. The other values are regular expressions for literal patterns, a constructor
  for documents, and a file tree with library functions that fail on one file.
\<close>

definition zero_Sum :: "string \<Rightarrow> digest" where
  "zero_Sum s = 0"

definition exact :: "string \<Rightarrow> Regexp" where
  \<comment> \<open>the expression \<open>^p$\<close> for a literal \<open>p\<close> without metacharacters\<close>
  "exact p s = (s = p)"

definition anchored :: "string \<Rightarrow> Regexp" where
  \<comment> \<open>the expression \<open>^p\<close> for a literal \<open>p\<close> without metacharacters\<close>
  "anchored p s = (take (length p) s = p)"

definition document :: "string \<Rightarrow> string \<Rightarrow> string \<Rightarrow> string list \<Rightarrow> string \<Rightarrow> Config" where
  \<comment> \<open>a document with the given organization, repository, branch, destinations and path\<close>
  "document org repo branch tos path =
     \<lparr>Config.ReleaseBuildConfiguration =
        \<lparr>Metadata = \<lparr>Org = org, Repo = repo, Branch = branch\<rparr>,
         Images = map (\<lambda>t. \<lparr>To = t\<rparr>) tos\<rparr>,
      Path = path\<rparr>"

definition example_library :: library where
  "example_library =
     \<lparr>filepath_Rel = (\<lambda>base target. (drop (length base + 1) target, None)),
      os_ReadFile = (\<lambda>path. Inr path),
      gyaml_YAMLToJSON =
        (\<lambda>y. if y = ''/r/ci/bad.yaml'' then Inl (External ''yaml: did not find expected key'')
             else Inr y),
      json_Unmarshal =
        (\<lambda>j. Inr \<lparr>Metadata = \<lparr>Org = ''o'', Repo = ''r'', Branch = ''main''\<rparr>, Images = []\<rparr>)\<rparr>"

definition example_tree :: "visit list" where
  "example_tree =
     [\<lparr>v_path = ''/r'', v_info = Some \<lparr>IsDir = True\<rparr>\<rparr>,
      \<lparr>v_path = ''/r/ci'', v_info = Some \<lparr>IsDir = True\<rparr>\<rparr>,
      \<lparr>v_path = ''/r/ci/a.yaml'', v_info = Some \<lparr>IsDir = False\<rparr>\<rparr>,
      \<lparr>v_path = ''/r/ci/bad.yaml'', v_info = Some \<lparr>IsDir = False\<rparr>\<rparr>,
      \<lparr>v_path = ''/r/ci/c.yaml'', v_info = Some \<lparr>IsDir = False\<rparr>\<rparr>]"

section \<open>Properties of the name generator\<close>

lemma of_char_lt_256: "(of_char b :: nat) < 256"
proof -
  have "(of_char b :: nat) mod 256 < 256"
    by (rule mod_less_divisor) simp
  then show ?thesis
    by (simp only: of_char_mod_256)
qed

lemma alnum_string_of_byte: "MatchString isAlphanumeric (string_of_byte b) = alnum b"
proof (cases "(of_char b :: nat) < 128")
  case True
  then show ?thesis
    by (simp add: MatchString_def isAlphanumeric_def string_of_byte_def)
next
  case False
  have lt: "(of_char b :: nat) < 256" by (rule of_char_lt_256)
  then have d: "(of_char b :: nat) div 64 < 4" by arith
  have "\<not> alnum (char_of (192 + (of_char b :: nat) div 64))"
    using d by (simp add: alnum_def Let_def)
  moreover have "\<not> alnum b"
    using False by (simp add: alnum_def Let_def)
  ultimately show ?thesis
    using False by (simp add: MatchString_def isAlphanumeric_def string_of_byte_def Let_def)
qed

lemma length_fmt_x: "length (fmt_x h) = 32"
  by (simp add: fmt_x_def)

lemma hexdigit_lower: "hexdigit n \<in> set ''0123456789abcdef''"
  unfolding hexdigit_def by (rule nth_mem) simp

lemma alnum_hexdigit: "alnum (hexdigit n)"
proof -
  have "\<forall>c\<in>set ''0123456789abcdef''. alnum c"
    by (simp add: alnum_def)
  with hexdigit_lower [of n] show ?thesis
    by blast
qed

lemma alnum_fmt_x: "c \<in> set (fmt_x h) \<Longrightarrow> alnum c"
  by (auto simp: fmt_x_def alnum_hexdigit)

declare makeValidName_loop.simps [simp del]

lemma mvl_snoc:
  "makeValidName_loop (xs @ [x]) (len xs) =
     (if alnum x then Some (xs @ [x]) else makeValidName_loop xs (len xs - 1))"
  by (subst makeValidName_loop.simps)
     (simp add: index_byte_def slice_to_def alnum_string_of_byte)

lemma mvl_nil: "makeValidName_loop [] (- 1) = None"
  by (subst makeValidName_loop.simps) (simp add: index_byte_def)

lemma makeValidName_eq:
  "makeValidName n = (if \<exists>c\<in>set n. alnum c then Some (strip_trailer n) else None)"
proof (induction n rule: rev_induct)
  case Nil
  show ?case by (simp add: makeValidName_def mvl_nil)
next
  case (snoc x xs)
  have "makeValidName (xs @ [x]) = (if alnum x then Some (xs @ [x]) else makeValidName xs)"
    using mvl_snoc [of xs x] by (simp add: makeValidName_def)
  with snoc show ?case
    by (auto simp: strip_trailer_def)
qed

lemma strip_trailer_snoc:
  "strip_trailer (xs @ [x]) = (if alnum x then xs @ [x] else strip_trailer xs)"
  by (simp add: strip_trailer_def)

lemma length_strip_trailer: "length (strip_trailer n) \<le> length n"
  by (simp add: strip_trailer_def length_dropWhile_le [of _ "rev n", simplified])

lemma strip_trailer_last:
  assumes "\<exists>c\<in>set n. alnum c"
  shows "strip_trailer n \<noteq> [] \<and> alnum (last (strip_trailer n))"
proof -
  let ?d = "dropWhile (\<lambda>c. \<not> alnum c) (rev n)"
  from assms have ne: "?d \<noteq> []"
    by (auto simp: dropWhile_eq_Nil_conv)
  then have "alnum (hd ?d)"
    using hd_dropWhile [of "\<lambda>c. \<not> alnum c" "rev n"] by simp
  with ne show ?thesis
    by (simp add: strip_trailer_def last_rev)
qed

lemma strip_trailer_keeps:
  assumes "hx \<noteq> []" and "\<forall>c\<in>set hx. alnum c"
  shows "\<exists>t'. strip_trailer (a @ hx @ t) = a @ hx @ t' \<and> length t' \<le> length t"
proof (induction t rule: rev_induct)
  case Nil
  from assms have "alnum (last hx)" by simp
  then have "strip_trailer ((a @ butlast hx) @ [last hx]) = (a @ butlast hx) @ [last hx]"
    by (simp only: strip_trailer_snoc if_True)
  with assms(1) show ?case by simp
next
  case (snoc x xs)
  have "strip_trailer ((a @ hx @ xs) @ [x]) =
          (if alnum x then (a @ hx @ xs) @ [x] else strip_trailer (a @ hx @ xs))"
    by (rule strip_trailer_snoc)
  with snoc show ?case
    by (cases "alnum x") auto
qed

lemma Name_short:
  "len parent + len suffix \<le> 63 \<Longrightarrow> Name md5_Sum parent suffix = Some (parent @ suffix)"
  by (simp add: Name_def longest_def)

lemma Name_long:
  assumes "len parent + len suffix > 63" and "31 \<le> len suffix"
  shows "Name md5_Sum parent suffix = makeValidName (long_ret md5_Sum parent suffix)"
proof (cases "31 < len parent")
  case True
  with assms show ?thesis
    by (simp add: Name_def longest_def head_def md5Len_def slice_to_def long_ret_def
        length_fmt_x Let_def)
next
  case False
  with assms show ?thesis
    by (simp add: Name_def longest_def head_def md5Len_def slice_to_def long_ret_def
        length_fmt_x Let_def nat_diff_distrib)
qed

lemma Name_hashed:
  assumes "len parent + len suffix > 63" and "len suffix < 31"
  shows "Name md5_Sum parent suffix =
           Some (take (31 - length suffix) parent @ fmt_x (md5_Sum parent) @ suffix)"
  using assms
  by (simp add: Name_def longest_def head_def md5Len_def slice_to_def Let_def nat_diff_distrib)

lemma length_long_ret:
  "31 \<le> len suffix \<Longrightarrow> length (long_ret md5_Sum parent suffix) = 63"
  by (simp add: long_ret_def length_fmt_x)

lemma long_ret_alnum: "\<exists>c\<in>set (long_ret md5_Sum parent suffix). alnum c"
proof -
  have "fmt_x (md5_Sum (parent @ suffix)) \<noteq> []"
    using length_fmt_x [of "md5_Sum (parent @ suffix)"] by auto
  then obtain c where c: "c \<in> set (fmt_x (md5_Sum (parent @ suffix)))"
    by (cases "fmt_x (md5_Sum (parent @ suffix))") auto
  then have "alnum c"
    by (rule alnum_fmt_x)
  moreover from c have "c \<in> set (long_ret md5_Sum parent suffix)"
    by (simp add: long_ret_def)
  ultimately show ?thesis
    by blast
qed

lemma long_ret_spec:
  "31 \<le> len suffix \<Longrightarrow>
     long_ret md5_Sum parent suffix =
       spec_pad (take 31 parent @ fmt_x (md5_Sum (parent @ suffix))) suffix"
  by (auto simp: long_ret_def spec_pad_def length_fmt_x)

lemma Name_long_Some:
  assumes "len parent + len suffix > 63" and "31 \<le> len suffix"
  shows "Name md5_Sum parent suffix = Some (strip_trailer (long_ret md5_Sum parent suffix))"
  using assms by (simp add: Name_long makeValidName_eq long_ret_alnum)

section \<open>Claims about the name generator\<close>

text \<open>
  C1. For every pair of strings (base, suffix), \<open>Name\<close> returns (it does not panic) and
  the string it returns has length at most 63.
\<close>

theorem Name_length_bound:
  "\<exists>r. Name md5_Sum base suffix = Some r \<and> length r \<le> 63"
proof -
  consider (short) "len base + len suffix \<le> 63"
    | (long) "len base + len suffix > 63" "31 \<le> len suffix"
    | (hashed) "len base + len suffix > 63" "len suffix < 31"
    by linarith
  then show ?thesis
  proof cases
    case short
    then show ?thesis by (simp add: Name_short)
  next
    case long
    have "length (strip_trailer (long_ret md5_Sum base suffix)) \<le> 63"
      using length_strip_trailer [of "long_ret md5_Sum base suffix"] long(2)
      by (simp add: length_long_ret)
    with long show ?thesis by (simp add: Name_long_Some)
  next
    case hashed
    then show ?thesis by (simp add: Name_hashed length_fmt_x)
  qed
qed

text \<open>
  C2. For every pair of strings (base, suffix) with \<open>len(base) + len(suffix) \<le> 63\<close>,
  \<open>Name(base, suffix)\<close> is the plain concatenation \<open>base + suffix\<close>, unchanged.
\<close>

theorem Name_short_identity:
  "len base + len suffix \<le> 63 \<Longrightarrow> Name md5_Sum base suffix = Some (base @ suffix)"
  by (rule Name_short)

theorem Name_short_identity_witness:
  "len ''knative-eventing'' + len ''-main'' \<le> 63 \<and>
   Name zero_Sum ''knative-eventing'' ''-main'' = Some ''knative-eventing-main''"
  using Name_short_identity [of "''knative-eventing''" "''-main''" zero_Sum] by simp

text \<open>
  C3 claims that a non-empty result of \<open>Name\<close> always ends in an alphanumeric character.
  \<open>makeValidName\<close> runs in the long-suffix branch only; a short name is returned as it
  came: \<open>Name("a-", "")\<close> is \<open>"a-"\<close>.
\<close>

theorem Name_alnum_end_counterexample:
  "Name zero_Sum ''a-'' '''' = Some ''a-'' \<and> ''a-'' \<noteq> [] \<and> \<not> alnum (last ''a-'')"
  by (simp add: Name_def longest_def alnum_def)

text \<open>
  C3, as the code has it. \<open>Name(base, suffix)\<close> always returns, and its result is non-empty
  and ends in an alphanumeric character exactly when the name was hashed
  (\<open>len(base) + len(suffix) > 63\<close>) with a suffix of at least 31 bytes or an empty suffix,
  or when \<open>base + suffix\<close> itself ends in an alphanumeric character. In every other case
  the last character of the input is the last character of the result.
\<close>

theorem Name_alnum_end:
  "\<exists>r. Name md5_Sum base suffix = Some r \<and>
     ((r \<noteq> [] \<and> alnum (last r)) \<longleftrightarrow>
        (len base + len suffix > 63 \<and> (31 \<le> len suffix \<or> suffix = [])) \<or>
        (base @ suffix \<noteq> [] \<and> alnum (last (base @ suffix))))"
proof -
  have "len base + len suffix \<le> 63 \<or> (len base + len suffix > 63 \<and> 31 \<le> len suffix) \<or>
      (len base + len suffix > 63 \<and> suffix = []) \<or>
      (len base + len suffix > 63 \<and> len suffix < 31 \<and> suffix \<noteq> [])"
    by linarith
  then consider (short) "len base + len suffix \<le> 63"
    | (long) "len base + len suffix > 63" "31 \<le> len suffix"
    | (bare) "len base + len suffix > 63" "suffix = []"
    | (hashed) "len base + len suffix > 63" "len suffix < 31" "suffix \<noteq> []"
    by blast
  then show ?thesis
  proof cases
    case short
    then show ?thesis by (simp add: Name_short)
  next
    case long
    with strip_trailer_last [OF long_ret_alnum, of md5_Sum base suffix]
    show ?thesis by (simp add: Name_long_Some)
  next
    case bare
    let ?h = "fmt_x (md5_Sum base)"
    have ne: "?h \<noteq> []"
      using length_fmt_x [of "md5_Sum base"] by auto
    then have "alnum (last ?h)"
      by (rule alnum_fmt_x [OF last_in_set])
    with bare ne show ?thesis by (simp add: Name_hashed)
  next
    case hashed
    then show ?thesis by (simp add: Name_hashed)
  qed
qed

text \<open>
  C7. For every pair (base, suffix) with \<open>len(base) + len(suffix) > 63\<close> and
  \<open>63 - 32 \<le> len(suffix)\<close>, \<open>Name\<close> returns the specification's long-suffix name: the
  digest is taken of \<open>base + suffix\<close>, the head of the base is cut to at most 31
  characters, the digest follows as 32 lower-case hexadecimal characters, a prefix of the
  suffix fills the string up to length 63, and the trailing characters that are not
  alphanumeric are stripped.
\<close>

theorem Name_long_suffix:
  assumes "len base + len suffix > 63" and "63 - 32 \<le> len suffix"
  shows "Name md5_Sum base suffix = Some (spec_long_name md5_Sum base suffix) \<and>
         length (fmt_x (md5_Sum (base @ suffix))) = 32 \<and>
         set (fmt_x (md5_Sum (base @ suffix))) \<subseteq> set ''0123456789abcdef'' \<and>
         length (spec_pad (take 31 base @ fmt_x (md5_Sum (base @ suffix))) suffix) = 63"
proof -
  from assms(2) have s: "31 \<le> len suffix" by simp
  have "set (fmt_x (md5_Sum (base @ suffix))) \<subseteq> set ''0123456789abcdef''"
    unfolding fmt_x_def using hexdigit_lower by auto
  moreover have "Name md5_Sum base suffix = Some (spec_long_name md5_Sum base suffix)"
    using assms(1) s by (simp add: Name_long_Some spec_long_name_def long_ret_spec)
  moreover have "length (spec_pad (take 31 base @ fmt_x (md5_Sum (base @ suffix))) suffix) = 63"
    using length_long_ret [OF s, of md5_Sum base] by (simp add: long_ret_spec [OF s])
  ultimately show ?thesis by (simp add: length_fmt_x)
qed

lemma fmt_x_zero_Sum: "fmt_x (zero_Sum s) = ''00000000000000000000000000000000''"
  unfolding fmt_x_def zero_Sum_def by code_simp

theorem Name_long_suffix_witness:
  "len ''openshift-knative-eventing-kafka-broker-release'' + len ''-receiver-loom-and-dispatcher-loom'' > 63 \<and>
   63 - 32 \<le> len ''-receiver-loom-and-dispatcher-loom'' \<and>
   Name zero_Sum ''openshift-knative-eventing-kafka-broker-release'' ''-receiver-loom-and-dispatcher-loom'' =
     Some ''openshift-knative-eventing-kafk00000000000000000000000000000000''"
  using Name_long_suffix [of "''openshift-knative-eventing-kafka-broker-release''"
      "''-receiver-loom-and-dispatcher-loom''" zero_Sum]
  by (simp add: spec_long_name_def spec_pad_def strip_trailer_def fmt_x_zero_Sum alnum_def)

text \<open>
  C9. \<open>Name\<close> never panics. Whenever it calls \<open>makeValidName\<close> (the name is too long
  and the suffix leaves no room, \<open>head - len(suffix) \<le> 0\<close>), the argument contains an
  alphanumeric character, so the loop stops with every index in range, and the result
  keeps the head of the parent and the whole hexadecimal digest.
\<close>

theorem Name_never_panics:
  "Name md5_Sum parent suffix \<noteq> None \<and>
   (len parent > longest - len suffix \<and> head - len suffix \<le> 0 \<longrightarrow>
      Name md5_Sum parent suffix = makeValidName (long_ret md5_Sum parent suffix) \<and>
      (\<exists>c\<in>set (long_ret md5_Sum parent suffix). alnum c) \<and>
      (\<exists>t. makeValidName (long_ret md5_Sum parent suffix) =
             Some (take 31 parent @ fmt_x (md5_Sum (parent @ suffix)) @ t)))"
proof -
  have total: "Name md5_Sum parent suffix \<noteq> None"
  proof -
    consider (short) "len parent + len suffix \<le> 63"
      | (long) "len parent + len suffix > 63" "31 \<le> len suffix"
      | (hashed) "len parent + len suffix > 63" "len suffix < 31"
      by linarith
    then show ?thesis
      by cases (simp_all add: Name_short Name_long_Some Name_hashed)
  qed
  have branch: "Name md5_Sum parent suffix = makeValidName (long_ret md5_Sum parent suffix) \<and>
      (\<exists>c\<in>set (long_ret md5_Sum parent suffix). alnum c) \<and>
      (\<exists>t. makeValidName (long_ret md5_Sum parent suffix) =
             Some (take 31 parent @ fmt_x (md5_Sum (parent @ suffix)) @ t))"
    if c: "len parent > longest - len suffix" "head - len suffix \<le> 0"
  proof -
    from c have l: "len parent + len suffix > 63" "31 \<le> len suffix"
      by (simp_all add: longest_def head_def md5Len_def)
    let ?h = "fmt_x (md5_Sum (parent @ suffix))"
    have "?h \<noteq> []"
      using length_fmt_x [of "md5_Sum (parent @ suffix)"] by auto
    moreover have "\<forall>c\<in>set ?h. alnum c"
      by (simp add: alnum_fmt_x)
    ultimately obtain t where
      "strip_trailer (take 31 parent @ ?h @ take (31 - length parent) suffix) =
         take 31 parent @ ?h @ t"
      using strip_trailer_keeps [of ?h "take 31 parent" "take (31 - length parent) suffix"]
      by blast
    then have "makeValidName (long_ret md5_Sum parent suffix) = Some (take 31 parent @ ?h @ t)"
      using long_ret_alnum [of md5_Sum parent suffix]
      by (simp add: makeValidName_eq long_ret_def)
    then show ?thesis
      using l long_ret_alnum [of md5_Sum parent suffix] by (simp add: Name_long)
  qed
  from total branch show ?thesis by blast
qed

theorem Name_never_panics_witness:
  "longest - len ''-dispatcher-image-.-.with.dots.and-dashes-and.more-text'' < len ''release-next'' \<and>
   head - len ''-dispatcher-image-.-.with.dots.and-dashes-and.more-text'' \<le> 0 \<and>
   (\<exists>c\<in>set (long_ret zero_Sum ''release-next'' ''-dispatcher-image-.-.with.dots.and-dashes-and.more-text'').
      alnum c) \<and>
   Name zero_Sum ''release-next'' ''-dispatcher-image-.-.with.dots.and-dashes-and.more-text'' =
     Some ''release-next00000000000000000000000000000000-dispatcher-image''"
proof -
  have h: "longest - len ''-dispatcher-image-.-.with.dots.and-dashes-and.more-text'' < len ''release-next'' \<and>
      head - len ''-dispatcher-image-.-.with.dots.and-dashes-and.more-text'' \<le> 0"
    by (simp add: longest_def head_def md5Len_def)
  with Name_never_panics [of zero_Sum "''release-next''"
      "''-dispatcher-image-.-.with.dots.and-dashes-and.more-text''"]
  have "\<exists>c\<in>set (long_ret zero_Sum ''release-next'' ''-dispatcher-image-.-.with.dots.and-dashes-and.more-text'').
      alnum c"
    by blast
  moreover have "Name zero_Sum ''release-next'' ''-dispatcher-image-.-.with.dots.and-dashes-and.more-text'' =
     Some ''release-next00000000000000000000000000000000-dispatcher-image''"
    by code_simp
  ultimately show ?thesis
    using h by blast
qed

section \<open>The path filter\<close>

lemma excludes_loop_eq:
  "excludes_loop xs p b = (b \<and> \<not> (\<exists>x\<in>set xs. MatchString x p))"
  by (induction xs arbitrary: b) auto

lemma includes_loop_eq:
  "includes_loop is excludes p b =
     (if is = [] then b
      else (b \<or> (\<exists>i\<in>set is. MatchString i p)) \<and> \<not> (\<exists>x\<in>set excludes. MatchString x p))"
proof (induction "is" arbitrary: b)
  case Nil
  show ?case by simp
next
  case (Cons i "is")
  show ?case
    by (cases "is = []") (auto simp: Cons.IH excludes_loop_eq)
qed

text \<open>
  C4. For every path and every list of include patterns and of exclude patterns (empty
  lists too), the decision that the nested loops of \<open>collectConfigurations\<close> compute is
  the closed form: the path is included if and only if some include pattern matches it
  and no exclude pattern matches it. The order of the patterns within either list plays no
  part, and an exclude pattern wins over an include pattern.
\<close>

theorem shouldInclude_closed_form:
  "shouldInclude includes excludes path =
     ((\<exists>i\<in>set includes. MatchString i path) \<and> \<not> (\<exists>x\<in>set excludes. MatchString x path))"
  by (simp add: shouldInclude_def includes_loop_eq)

text \<open>
  The example of the specification: with \<open>includes = ["^a/"]\<close> and
  \<open>excludes = ["^a/b/"]\<close>, the path \<open>a/x/c\<close> is included, \<open>a/b/c\<close> and \<open>z/1\<close> are not.
\<close>

theorem shouldInclude_closed_form_witness:
  "shouldInclude [anchored ''a/''] [anchored ''a/b/''] ''a/x/c'' \<and>
   \<not> shouldInclude [anchored ''a/''] [anchored ''a/b/''] ''a/b/c'' \<and>
   \<not> shouldInclude [anchored ''a/''] [anchored ''a/b/''] ''z/1''"
  using shouldInclude_closed_form [of "[anchored ''a/'']" "[anchored ''a/b/'']" "''a/x/c''"]
    shouldInclude_closed_form [of "[anchored ''a/'']" "[anchored ''a/b/'']" "''a/b/c''"]
    shouldInclude_closed_form [of "[anchored ''a/'']" "[anchored ''a/b/'']" "''z/1''"]
  by (simp add: MatchString_def anchored_def)

section \<open>Discovery stops at the first document that does not parse\<close>

lemma WalkDir_append:
  "WalkDir (xs @ ys) fn s =
     (case WalkDir xs fn s of
        None \<Rightarrow> None
      | Some (Some err, s') \<Rightarrow> Some (Some err, s')
      | Some (None, s') \<Rightarrow> WalkDir ys fn s')"
  by (induction xs arbitrary: s) (auto split: option.splits prod.splits)

lemma walkFn_parse_error:
  assumes "v_info v = Some entry" and "\<not> IsDir entry"
    and "filepath_Rel lib root (v_path v) = (m, None)"
    and "shouldInclude includes excludes m"
    and "snd (parseConfig lib (v_path v)) = Inl cause"
  shows "walkFn lib root includes excludes v s =
     Some (Some (Errorf ''failed to parse CI config in %q: %w'' [v_path v] cause),
           s\<lparr>w_trace := w_trace s @ [Printf ''Parsing file %q\<newline>'' [v_path v], ReadFile (v_path v)]\<rparr>)"
proof -
  from assms(5) have "parseConfig lib (v_path v) = ([ReadFile (v_path v)], Inl cause)"
    by (simp add: parseConfig_def)
  with assms(1-4) show ?thesis
    by (simp add: walkFn_def)
qed

text \<open>
  C8. Take a traversal in which the calls before some file raise no error (discovery of
  that prefix alone succeeds, with documents \<open>cs\<close> and trace \<open>tr\<close>), and let the file be
  matched by the filter and fail to parse with \<open>cause\<close>. Then \<open>collectConfigurations\<close>
  returns the error "failed while walking directory", which wraps "failed to parse CI
  config" with the offending path, which wraps the cause; the sequence it returns is
  empty, whatever \<open>cs\<close> was; and the trace ends with the read of the offending file:
  nothing of the rest of the traversal is logged, read or parsed.
\<close>

theorem collectConfigurations_parse_error:
  assumes "collectConfigurations lib pre root includes excludes = Some ((cs, None), tr)"
    and "v_info v = Some entry" and "\<not> IsDir entry"
    and "filepath_Rel lib root (v_path v) = (m, None)"
    and "shouldInclude includes excludes m"
    and "snd (parseConfig lib (v_path v)) = Inl cause"
  shows "collectConfigurations lib (pre @ v # post) root includes excludes =
     Some (([], Some (Errorf ''failed while walking directory %q: %w\<newline>'' [root]
                        (Errorf ''failed to parse CI config in %q: %w'' [v_path v] cause))),
           tr @ [Printf ''Parsing file %q\<newline>'' [v_path v], ReadFile (v_path v)])"
proof -
  let ?fn = "walkFn lib root includes excludes"
  let ?s0 = "\<lparr>w_configs = [], w_trace = []\<rparr>"
  from assms(1) obtain s where s: "WalkDir pre ?fn ?s0 = Some (None, s)" and tr: "w_trace s = tr"
    by (auto simp: collectConfigurations_def split: option.splits prod.splits)
  have "WalkDir (v # post) ?fn s =
      Some (Some (Errorf ''failed to parse CI config in %q: %w'' [v_path v] cause),
            s\<lparr>w_trace := w_trace s @ [Printf ''Parsing file %q\<newline>'' [v_path v], ReadFile (v_path v)]\<rparr>)"
    by (simp add: walkFn_parse_error [OF assms(2-6)])
  with s have "WalkDir (pre @ v # post) ?fn ?s0 =
      Some (Some (Errorf ''failed to parse CI config in %q: %w'' [v_path v] cause),
            s\<lparr>w_trace := w_trace s @ [Printf ''Parsing file %q\<newline>'' [v_path v], ReadFile (v_path v)]\<rparr>)"
    by (simp add: WalkDir_append)
  then show ?thesis
    by (simp add: collectConfigurations_def tr)
qed

text \<open>
  A run of C8: the first document parses, the second does not, the third is never read,
  and the document collected before the failure is not returned.
\<close>

theorem collectConfigurations_parse_error_witness:
  "collectConfigurations example_library (take 3 example_tree) ''/r'' [anchored ''ci/''] [] =
     Some (([\<lparr>Config.ReleaseBuildConfiguration =
                \<lparr>Metadata = \<lparr>Org = ''o'', Repo = ''r'', Branch = ''main''\<rparr>, Images = []\<rparr>,
              Path = ''/r/ci/a.yaml''\<rparr>], None),
           [Printf ''Parsing file %q\<newline>'' [''/r/ci/a.yaml''], ReadFile ''/r/ci/a.yaml'']) \<and>
   shouldInclude [anchored ''ci/''] [] ''ci/bad.yaml'' \<and>
   snd (parseConfig example_library ''/r/ci/bad.yaml'') =
     Inl (Errorf ''failed to convert YAML to JSON: %w'' []
            (External ''yaml: did not find expected key'')) \<and>
   collectConfigurations example_library example_tree ''/r'' [anchored ''ci/''] [] =
     Some (([], Some (Errorf ''failed while walking directory %q: %w\<newline>'' [''/r'']
                        (Errorf ''failed to parse CI config in %q: %w'' [''/r/ci/bad.yaml'']
                           (Errorf ''failed to convert YAML to JSON: %w'' []
                              (External ''yaml: did not find expected key''))))),
           [Printf ''Parsing file %q\<newline>'' [''/r/ci/a.yaml''], ReadFile ''/r/ci/a.yaml'',
            Printf ''Parsing file %q\<newline>'' [''/r/ci/bad.yaml''], ReadFile ''/r/ci/bad.yaml''])"
proof -
  let ?pre = "take 3 example_tree"
  let ?v = "\<lparr>v_path = ''/r/ci/bad.yaml'', v_info = Some \<lparr>IsDir = False\<rparr>\<rparr>"
  let ?post = "[\<lparr>v_path = ''/r/ci/c.yaml'', v_info = Some \<lparr>IsDir = False\<rparr>\<rparr>]"
  let ?a = "\<lparr>Config.ReleaseBuildConfiguration =
                \<lparr>Metadata = \<lparr>Org = ''o'', Repo = ''r'', Branch = ''main''\<rparr>, Images = []\<rparr>,
              Path = ''/r/ci/a.yaml''\<rparr>"
  let ?tr = "[Printf ''Parsing file %q\<newline>'' [''/r/ci/a.yaml''], ReadFile ''/r/ci/a.yaml'']"
  let ?cause = "Errorf ''failed to convert YAML to JSON: %w'' []
            (External ''yaml: did not find expected key'')"
  have tree: "example_tree = ?pre @ ?v # ?post"
    by (simp add: example_tree_def)
  have inc: "shouldInclude [anchored ''ci/''] [] ''ci/bad.yaml''"
    by (simp add: shouldInclude_def MatchString_def anchored_def)
  have pre: "collectConfigurations example_library ?pre ''/r'' [anchored ''ci/''] [] =
      Some (([?a], None), ?tr)"
    by (simp add: example_tree_def collectConfigurations_def walkFn_def example_library_def
        parseConfig_def shouldInclude_def MatchString_def anchored_def)
  have info: "v_info ?v = Some \<lparr>IsDir = False\<rparr>"
    by simp
  have nodir: "\<not> IsDir \<lparr>IsDir = False\<rparr>"
    by simp
  have rel: "filepath_Rel example_library ''/r'' (v_path ?v) = (''ci/bad.yaml'', None)"
    by (simp add: example_library_def)
  have cause: "snd (parseConfig example_library (v_path ?v)) = Inl ?cause"
    by (simp add: parseConfig_def example_library_def)
  have "collectConfigurations example_library (?pre @ ?v # ?post) ''/r'' [anchored ''ci/''] [] =
     Some (([], Some (Errorf ''failed while walking directory %q: %w\<newline>'' [''/r'']
                        (Errorf ''failed to parse CI config in %q: %w'' [v_path ?v] ?cause))),
           ?tr @ [Printf ''Parsing file %q\<newline>'' [v_path ?v], ReadFile (v_path ?v)])"
    by (rule collectConfigurations_parse_error [OF pre info nodir rel inc cause])
  with inc pre cause show ?thesis
    by (simp add: tree [symmetric])
qed

section \<open>The grouping loop\<close>

lemma ignore_eq: "ignore rs to = (\<exists>r\<in>set rs. MatchString r to)"
  by (induction rs) auto

lemma truncate_total: "\<exists>k. truncate md5_Sum s = Some k"
proof (cases "len s \<le> 63")
  case True
  then show ?thesis
    by (simp add: truncate_def Name_short)
next
  case False
  then show ?thesis
    by (simp add: truncate_def Name_hashed)
qed

lemma step_writes_Cons:
  "step_writes ex an c (ib # ibs) =
     (if ignore ex (To ib) then step_writes ex an c ibs
      else (dockerfileComponentKey (Config.ReleaseBuildConfiguration c) ib, component_of an c ib)
             # step_writes ex an c ibs)"
  by (simp add: step_writes_def ignore_eq)

lemma step_writes_Nil: "step_writes ex an c [] = []"
  by (simp add: step_writes_def)

lemma images_loop_eq:
  "apps ak = Some comps \<Longrightarrow>
     images_loop ex an ak c ibs apps =
       Some (apps(ak \<mapsto> comps ++ map_of (rev (step_writes ex an c ibs))))"
proof (induction ibs arbitrary: apps comps)
  case Nil
  then show ?case
    by (simp add: step_writes_Nil fun_upd_idem)
next
  case (Cons ib ibs)
  show ?case
  proof (cases "ignore ex (To ib)")
    case True
    with Cons show ?thesis
      by (simp add: step_writes_Cons)
  next
    case False
    let ?k = "dockerfileComponentKey (Config.ReleaseBuildConfiguration c) ib"
    let ?r = "component_of an c ib"
    let ?comps = "comps(?k \<mapsto> ?r)"
    let ?apps = "apps(ak \<mapsto> ?comps)"
    let ?rest = "map_of (rev (step_writes ex an c ibs))"
    have m: "?comps ++ ?rest = comps ++ map_of (rev (step_writes ex an c (ib # ibs)))"
      using False by (simp add: step_writes_Cons)
    have "?apps ak = Some ?comps"
      by (simp only: fun_upd_same)
    then have "images_loop ex an ak c ibs ?apps = Some (?apps(ak \<mapsto> ?comps ++ ?rest))"
      by (rule Cons.IH)
    also have "?apps(ak \<mapsto> ?comps ++ ?rest) = apps(ak \<mapsto> ?comps ++ ?rest)"
      by (simp only: fun_upd_upd)
    finally have "images_loop ex an ak c ibs ?apps =
        Some (apps(ak \<mapsto> comps ++ map_of (rev (step_writes ex an c (ib # ibs)))))"
      by (simp only: m)
    moreover have "images_loop ex an ak c (ib # ibs) apps = images_loop ex an ak c ibs ?apps"
      using False Cons.prems by (simp add: component_of_def)
    ultimately show ?thesis
      by (simp only:)
  qed
qed

lemma all_writes_Nil: "all_writes ex an [] = []"
  by (simp add: all_writes_def)

lemma all_writes_Cons:
  "all_writes ex an (c # cs) =
     step_writes ex an c (Images (Config.ReleaseBuildConfiguration c)) @ all_writes ex an cs"
  by (simp add: all_writes_def)

lemma all_writes_append:
  "all_writes ex an (cs @ ds) = all_writes ex an cs @ all_writes ex an ds"
  by (simp add: all_writes_def)

lemma step_writes_append:
  "step_writes ex an c (xs @ ys) = step_writes ex an c xs @ step_writes ex an c ys"
  by (simp add: step_writes_def)

lemma configs_loop_eq:
  assumes "truncate md5_Sum (sanitize an) = Some ak"
  shows "apps ak = Some comps \<Longrightarrow>
     configs_loop md5_Sum ex an cs apps =
       Some (apps(ak \<mapsto> comps ++ map_of (rev (all_writes ex an cs))))"
proof (induction cs arbitrary: apps comps)
  case Nil
  then show ?case
    by (simp add: all_writes_Nil fun_upd_idem)
next
  case (Cons c cs)
  let ?w = "step_writes ex an c (Images (Config.ReleaseBuildConfiguration c))"
  let ?comps = "comps ++ map_of (rev ?w)"
  let ?apps = "apps(ak \<mapsto> ?comps)"
  let ?rest = "map_of (rev (all_writes ex an cs))"
  have m: "?comps ++ ?rest = comps ++ map_of (rev (all_writes ex an (c # cs)))"
    by (simp add: all_writes_Cons)
  have "?apps ak = Some ?comps"
    by (simp only: fun_upd_same)
  then have "configs_loop md5_Sum ex an cs ?apps = Some (?apps(ak \<mapsto> ?comps ++ ?rest))"
    by (rule Cons.IH)
  also have "?apps(ak \<mapsto> ?comps ++ ?rest) = apps(ak \<mapsto> ?comps ++ ?rest)"
    by (simp only: fun_upd_upd)
  finally have "configs_loop md5_Sum ex an cs ?apps =
      Some (apps(ak \<mapsto> comps ++ map_of (rev (all_writes ex an (c # cs)))))"
    by (simp only: m)
  moreover have "configs_loop md5_Sum ex an (c # cs) apps = configs_loop md5_Sum ex an cs ?apps"
    using assms Cons.prems by (simp add: images_loop_eq)
  ultimately show ?case
    by (simp only:)
qed

lemma run_applications_Nil: "run_applications md5_Sum ex an [] = Some Map.empty"
  by (simp add: run_applications_def)

lemma run_applications_eq:
  assumes "truncate md5_Sum (sanitize an) = Some ak" and "cs \<noteq> []"
  shows "run_applications md5_Sum ex an cs = Some [ak \<mapsto> map_of (rev (all_writes ex an cs))]"
proof -
  from assms(2) obtain c ds where cs: "cs = c # ds"
    by (cases cs) auto
  let ?apps = "[ak \<mapsto> (Map.empty :: string \<rightharpoonup> DockerfileApplicationConfig)]"
  have "?apps ak = Some Map.empty"
    by (simp only: fun_upd_same)
  then have "configs_loop md5_Sum ex an cs ?apps =
      Some (?apps(ak \<mapsto> Map.empty ++ map_of (rev (all_writes ex an cs))))"
    by (rule configs_loop_eq [OF assms(1)])
  also have "?apps(ak \<mapsto> Map.empty ++ map_of (rev (all_writes ex an cs))) =
      [ak \<mapsto> map_of (rev (all_writes ex an cs))]"
    by (simp only: fun_upd_upd empty_map_add)
  finally have "configs_loop md5_Sum ex an cs ?apps =
      Some [ak \<mapsto> map_of (rev (all_writes ex an cs))]" .
  moreover have "run_applications md5_Sum ex an cs = configs_loop md5_Sum ex an cs ?apps"
    using assms(1) unfolding cs run_applications_def
    by (simp add: fun_upd_idem)
  ultimately show ?thesis
    by (simp only:)
qed

lemma step_writes_mem:
  "(k, r) \<in> set (step_writes ex an c ibs) \<longleftrightarrow>
     (\<exists>ib\<in>set ibs. \<not> (\<exists>p\<in>set ex. MatchString p (To ib)) \<and>
        k = dockerfileComponentKey (Config.ReleaseBuildConfiguration c) ib \<and>
        r = component_of an c ib)"
  by (auto simp: step_writes_def)

lemma all_writes_mem:
  "(k, r) \<in> set (all_writes ex an cs) \<longleftrightarrow>
     (\<exists>c\<in>set cs. \<exists>ib\<in>set (Images (Config.ReleaseBuildConfiguration c)).
        \<not> (\<exists>p\<in>set ex. MatchString p (To ib)) \<and>
        k = dockerfileComponentKey (Config.ReleaseBuildConfiguration c) ib \<and>
        r = component_of an c ib)"
  by (auto simp: all_writes_def step_writes_mem)

lemma step_writes_excluded:
  "\<forall>ib\<in>set ibs. \<exists>p\<in>set ex. MatchString p (To ib) \<Longrightarrow> step_writes ex an c ibs = []"
  by (simp add: step_writes_def filter_empty_conv)

lemma all_writes_excluded:
  assumes "\<forall>c\<in>set cs. \<forall>ib\<in>set (Images (Config.ReleaseBuildConfiguration c)).
     \<exists>p\<in>set ex. MatchString p (To ib)"
  shows "all_writes ex an cs = []"
  using assms by (simp add: all_writes_def step_writes_excluded)

lemma all_writes_stored:
  assumes "map_of (rev (all_writes ex an cs)) k = Some r"
  shows "\<not> (\<exists>p\<in>set ex. MatchString p (To (ProjectDirectoryImageBuildStepConfiguration r))) \<and>
     (\<exists>c\<in>set cs. \<exists>ib\<in>set (Images (Config.ReleaseBuildConfiguration c)).
        k = dockerfileComponentKey (Config.ReleaseBuildConfiguration c) ib \<and>
        r = component_of an c ib)"
proof -
  from assms have "(k, r) \<in> set (rev (all_writes ex an cs))"
    by (rule map_of_SomeD)
  then have "(k, r) \<in> set (all_writes ex an cs)"
    by simp
  then obtain c ib where c: "c \<in> set cs" "ib \<in> set (Images (Config.ReleaseBuildConfiguration c))"
    and ib: "\<not> (\<exists>p\<in>set ex. MatchString p (To ib))"
      "k = dockerfileComponentKey (Config.ReleaseBuildConfiguration c) ib"
      "r = component_of an c ib"
    unfolding all_writes_mem by blast
  from ib(3) have "To (ProjectDirectoryImageBuildStepConfiguration r) = To ib"
    by (simp add: component_of_def)
  with ib(1) have "\<not> (\<exists>p\<in>set ex. MatchString p (To (ProjectDirectoryImageBuildStepConfiguration r)))"
    by simp
  moreover from c ib(2,3) have "\<exists>c\<in>set cs. \<exists>ib\<in>set (Images (Config.ReleaseBuildConfiguration c)).
        k = dockerfileComponentKey (Config.ReleaseBuildConfiguration c) ib \<and>
        r = component_of an c ib"
    by blast
  ultimately show ?thesis ..
qed

lemma all_writes_candidate:
  assumes "c \<in> set cs" "ib \<in> set (Images (Config.ReleaseBuildConfiguration c))"
    and "\<not> (\<exists>p\<in>set ex. MatchString p (To ib))"
  shows "\<exists>r. map_of (rev (all_writes ex an cs))
               (dockerfileComponentKey (Config.ReleaseBuildConfiguration c) ib) = Some r"
proof -
  let ?k = "dockerfileComponentKey (Config.ReleaseBuildConfiguration c) ib"
  from assms have "(?k, component_of an c ib) \<in> set (all_writes ex an cs)"
    unfolding all_writes_mem by blast
  then have "?k \<in> fst ` set (rev (all_writes ex an cs))"
    by (simp add: rev_image_eqI)
  then have "map_of (rev (all_writes ex an cs)) ?k \<noteq> None"
    by (simp only: map_of_eq_None_iff not_not)
  then show ?thesis
    by blast
qed

lemma map_of_rev_last:
  assumes "k \<notin> fst ` set later"
  shows "map_of (rev (earlier @ (k, r) # later)) k = Some r"
proof -
  from assms have "map_of (rev later) k = None"
    by (simp add: map_of_eq_None_iff)
  then show ?thesis
    by (simp add: map_add_def)
qed

lemma truncate_My_App: "truncate zero_Sum (sanitize ''My App'') = Some ''My-App''"
  by (simp add: truncate_def sanitize_def ReplaceAll_def Name_def longest_def)

lemma run_applications_My_App:
  "configs \<noteq> [] \<Longrightarrow>
     run_applications zero_Sum ex ''My App'' configs =
       Some (map_of [(''My-App'', map_of (rev (all_writes ex ''My App'' configs)))])"
  using run_applications_eq [OF truncate_My_App, of configs ex] by simp

lemmas example_defs =
  all_writes_def step_writes_def document_def MatchString_def exact_def anchored_def
  dockerfileComponentKey_def component_of_def

text \<open>
  C10. For every non-empty sequence of documents, the grouping loop returns a map whose
  only key is the application key \<open>truncate(sanitize(applicationName))\<close>; when every build
  step of every document is excluded, or no document has a build step, that key is
  mapped to the empty component map.
\<close>

theorem application_key_always_present:
  assumes "configs \<noteq> []"
  shows "\<exists>appKey apps.
     truncate md5_Sum (sanitize applicationName) = Some appKey \<and>
     run_applications md5_Sum excludeImages applicationName configs = Some apps \<and>
     dom apps = {appKey} \<and>
     ((\<forall>c\<in>set configs. \<forall>ib\<in>set (Images (Config.ReleaseBuildConfiguration c)).
          \<exists>r\<in>set excludeImages. MatchString r (To ib))
        \<longrightarrow> apps appKey = Some Map.empty)"
proof -
  obtain ak where ak: "truncate md5_Sum (sanitize applicationName) = Some ak"
    using truncate_total by blast
  let ?apps = "[ak \<mapsto> map_of (rev (all_writes excludeImages applicationName configs))]"
  have run: "run_applications md5_Sum excludeImages applicationName configs = Some ?apps"
    by (rule run_applications_eq [OF ak assms])
  have "dom ?apps = {ak}"
    by simp
  moreover have "?apps ak = Some Map.empty"
    if "\<forall>c\<in>set configs. \<forall>ib\<in>set (Images (Config.ReleaseBuildConfiguration c)).
          \<exists>r\<in>set excludeImages. MatchString r (To ib)"
    using all_writes_excluded [OF that, of applicationName] by simp
  ultimately show ?thesis
    using ak run by blast
qed

text \<open>
  A run of C10: the only build step is excluded and the second document has none.
\<close>

theorem application_key_always_present_witness:
  "[document ''o'' ''r'' ''main'' [''web''] ''a.yaml'', document ''o'' ''r'' ''next'' [] ''b.yaml''] \<noteq> [] \<and>
   (\<exists>appKey apps.
      truncate zero_Sum (sanitize ''My App'') = Some appKey \<and>
      run_applications zero_Sum [exact ''web''] ''My App''
        [document ''o'' ''r'' ''main'' [''web''] ''a.yaml'',
         document ''o'' ''r'' ''next'' [] ''b.yaml''] = Some apps \<and>
      dom apps = {appKey} \<and>
      apps appKey = Some (map_of [])) \<and>
   run_applications zero_Sum [exact ''web''] ''My App''
     [document ''o'' ''r'' ''main'' [''web''] ''a.yaml'',
      document ''o'' ''r'' ''next'' [] ''b.yaml''] =
     Some (map_of [(''My-App'', map_of [])])"
proof -
  let ?cs = "[document ''o'' ''r'' ''main'' [''web''] ''a.yaml'',
      document ''o'' ''r'' ''next'' [] ''b.yaml'']"
  have ne: "?cs \<noteq> []"
    by simp
  have ex: "\<forall>c\<in>set ?cs. \<forall>ib\<in>set (Images (Config.ReleaseBuildConfiguration c)).
      \<exists>r\<in>set [exact ''web'']. MatchString r (To ib)"
    by (simp add: example_defs)
  from application_key_always_present [OF ne, of zero_Sum "''My App''" "[exact ''web'']"] ex
  have "\<exists>appKey apps.
      truncate zero_Sum (sanitize ''My App'') = Some appKey \<and>
      run_applications zero_Sum [exact ''web''] ''My App'' ?cs = Some apps \<and>
      dom apps = {appKey} \<and>
      apps appKey = Some (map_of [])"
    by (simp only: map_of.simps) blast
  moreover have "run_applications zero_Sum [exact ''web''] ''My App'' ?cs =
      Some (map_of [(''My-App'', map_of [])])"
    by (simp add: run_applications_My_App example_defs)
  ultimately show ?thesis
    using ne by blast
qed

text \<open>
  C6. The grouping loop always returns a map, and (1) every record in it comes from a
  build step of some document whose destination matches no exclude-image pattern, so a
  record of an excluded step is never in the map; (2) every build step whose destination
  matches no exclude-image pattern has an entry under its component key (there is no
  include set for images); (3) a step whose destination matches an exclude-image pattern
  leaves the map as it was.
\<close>

theorem excluded_images_never_inserted:
  "\<exists>apps.
     run_applications md5_Sum excludeImages applicationName configs = Some apps \<and>
     (\<forall>appKey components k r.
        apps appKey = Some components \<and> components k = Some r \<longrightarrow>
          \<not> (\<exists>p\<in>set excludeImages.
               MatchString p (To (ProjectDirectoryImageBuildStepConfiguration r))) \<and>
          (\<exists>c\<in>set configs. \<exists>ib\<in>set (Images (Config.ReleaseBuildConfiguration c)).
             k = dockerfileComponentKey (Config.ReleaseBuildConfiguration c) ib \<and>
             r = component_of applicationName c ib)) \<and>
     (\<forall>c\<in>set configs. \<forall>ib\<in>set (Images (Config.ReleaseBuildConfiguration c)).
        \<not> (\<exists>p\<in>set excludeImages. MatchString p (To ib)) \<longrightarrow>
          (\<exists>appKey components r.
             truncate md5_Sum (sanitize applicationName) = Some appKey \<and>
             apps appKey = Some components \<and>
             components (dockerfileComponentKey (Config.ReleaseBuildConfiguration c) ib) = Some r)) \<and>
     (\<forall>appKey c ib ibs apps0.
        (\<exists>p\<in>set excludeImages. MatchString p (To ib)) \<longrightarrow>
          images_loop excludeImages applicationName appKey c (ib # ibs) apps0 =
          images_loop excludeImages applicationName appKey c ibs apps0)"
proof -
  have skip: "\<forall>appKey c ib ibs apps0.
        (\<exists>p\<in>set excludeImages. MatchString p (To ib)) \<longrightarrow>
          images_loop excludeImages applicationName appKey c (ib # ibs) apps0 =
          images_loop excludeImages applicationName appKey c ibs apps0"
    by (simp add: ignore_eq)
  show ?thesis
  proof (cases "configs = []")
    case True
    with skip show ?thesis
      by (simp add: run_applications_Nil)
  next
    case False
    obtain ak where ak: "truncate md5_Sum (sanitize applicationName) = Some ak"
      using truncate_total by blast
    let ?W = "all_writes excludeImages applicationName configs"
    let ?apps = "[ak \<mapsto> map_of (rev ?W)]"
    have run: "run_applications md5_Sum excludeImages applicationName configs = Some ?apps"
      by (rule run_applications_eq [OF ak False])
    have stored: "\<forall>appKey components k r.
        ?apps appKey = Some components \<and> components k = Some r \<longrightarrow>
          \<not> (\<exists>p\<in>set excludeImages.
               MatchString p (To (ProjectDirectoryImageBuildStepConfiguration r))) \<and>
          (\<exists>c\<in>set configs. \<exists>ib\<in>set (Images (Config.ReleaseBuildConfiguration c)).
             k = dockerfileComponentKey (Config.ReleaseBuildConfiguration c) ib \<and>
             r = component_of applicationName c ib)"
    proof (intro allI impI)
      fix appKey components k r
      assume a: "?apps appKey = Some components \<and> components k = Some r"
      then have "components = map_of (rev ?W)"
        by (cases "appKey = ak") simp_all
      with a have "map_of (rev ?W) k = Some r"
        by simp
      then show "\<not> (\<exists>p\<in>set excludeImages.
               MatchString p (To (ProjectDirectoryImageBuildStepConfiguration r))) \<and>
          (\<exists>c\<in>set configs. \<exists>ib\<in>set (Images (Config.ReleaseBuildConfiguration c)).
             k = dockerfileComponentKey (Config.ReleaseBuildConfiguration c) ib \<and>
             r = component_of applicationName c ib)"
        by (rule all_writes_stored)
    qed
    have candidate: "\<forall>c\<in>set configs. \<forall>ib\<in>set (Images (Config.ReleaseBuildConfiguration c)).
        \<not> (\<exists>p\<in>set excludeImages. MatchString p (To ib)) \<longrightarrow>
          (\<exists>appKey components r.
             truncate md5_Sum (sanitize applicationName) = Some appKey \<and>
             ?apps appKey = Some components \<and>
             components (dockerfileComponentKey (Config.ReleaseBuildConfiguration c) ib) = Some r)"
    proof (intro ballI impI)
      fix c ib
      assume "c \<in> set configs" "ib \<in> set (Images (Config.ReleaseBuildConfiguration c))"
        "\<not> (\<exists>p\<in>set excludeImages. MatchString p (To ib))"
      then obtain r where
        "map_of (rev ?W) (dockerfileComponentKey (Config.ReleaseBuildConfiguration c) ib) = Some r"
        using all_writes_candidate by blast
      moreover have "?apps ak = Some (map_of (rev ?W))"
        by (simp only: fun_upd_same)
      ultimately show "\<exists>appKey components r.
             truncate md5_Sum (sanitize applicationName) = Some appKey \<and>
             ?apps appKey = Some components \<and>
             components (dockerfileComponentKey (Config.ReleaseBuildConfiguration c) ib) = Some r"
        using ak by blast
    qed
    show ?thesis
      by (rule exI [of _ ?apps]) (intro conjI run stored candidate skip)
  qed
qed

text \<open>
  A run of C6: \<open>worker\<close> is excluded and \<open>web\<close> is stored.
\<close>

theorem excluded_images_never_inserted_witness:
  "(\<exists>p\<in>set [exact ''worker'']. MatchString p (To \<lparr>To = ''worker''\<rparr>)) \<and>
   \<not> (\<exists>p\<in>set [exact ''worker'']. MatchString p (To \<lparr>To = ''web''\<rparr>)) \<and>
   images_loop [exact ''worker''] ''My App'' ''My-App''
     (document ''o'' ''r'' ''main'' [''web'', ''worker''] ''a.yaml'') [\<lparr>To = ''worker''\<rparr>]
     (map_of [(''My-App'', map_of [])]) =
   images_loop [exact ''worker''] ''My App'' ''My-App''
     (document ''o'' ''r'' ''main'' [''web'', ''worker''] ''a.yaml'') []
     (map_of [(''My-App'', map_of [])]) \<and>
   run_applications zero_Sum [exact ''worker''] ''My App''
     [document ''o'' ''r'' ''main'' [''web'', ''worker''] ''a.yaml''] =
     Some (map_of [(''My-App'', map_of [(''o-r-main-web'',
       \<lparr>ApplicationName = ''My App'',
        ReleaseBuildConfiguration =
          \<lparr>Metadata = \<lparr>Org = ''o'', Repo = ''r'', Branch = ''main''\<rparr>,
           Images = [\<lparr>To = ''web''\<rparr>, \<lparr>To = ''worker''\<rparr>]\<rparr>,
        Path = ''a.yaml'',
        ProjectDirectoryImageBuildStepConfiguration = \<lparr>To = ''web''\<rparr>\<rparr>)])])"
proof -
  let ?d = "document ''o'' ''r'' ''main'' [''web'', ''worker''] ''a.yaml''"
  have m: "\<exists>p\<in>set [exact ''worker'']. MatchString p (To \<lparr>To = ''worker''\<rparr>)"
    by (simp add: MatchString_def exact_def)
  from excluded_images_never_inserted [of zero_Sum "[exact ''worker'']" "''My App''" "[?d]"]
  have "\<forall>appKey c ib ibs apps0.
        (\<exists>p\<in>set [exact ''worker'']. MatchString p (To ib)) \<longrightarrow>
          images_loop [exact ''worker''] ''My App'' appKey c (ib # ibs) apps0 =
          images_loop [exact ''worker''] ''My App'' appKey c ibs apps0"
    by blast
  with m have "images_loop [exact ''worker''] ''My App'' ''My-App'' ?d [\<lparr>To = ''worker''\<rparr>]
     (map_of [(''My-App'', map_of [])]) =
     images_loop [exact ''worker''] ''My App'' ''My-App'' ?d [] (map_of [(''My-App'', map_of [])])"
    by blast
  moreover have "run_applications zero_Sum [exact ''worker''] ''My App'' [?d] =
     Some (map_of [(''My-App'', map_of [(''o-r-main-web'',
       \<lparr>ApplicationName = ''My App'',
        ReleaseBuildConfiguration =
          \<lparr>Metadata = \<lparr>Org = ''o'', Repo = ''r'', Branch = ''main''\<rparr>,
           Images = [\<lparr>To = ''web''\<rparr>, \<lparr>To = ''worker''\<rparr>]\<rparr>,
        Path = ''a.yaml'',
        ProjectDirectoryImageBuildStepConfiguration = \<lparr>To = ''web''\<rparr>\<rparr>)])])"
    by (simp add: run_applications_My_App example_defs)
  moreover have "\<not> (\<exists>p\<in>set [exact ''worker'']. MatchString p (To \<lparr>To = ''web''\<rparr>))"
    by (simp add: MatchString_def exact_def)
  ultimately show ?thesis
    using m by blast
qed

text \<open>
  C5 claims that two documents with the same organization, repository, branch and
  destination always leave one entry under their component key, with the values of the
  later one. When the destination matches an exclude-image pattern there is no entry at
  all; and a later document with other fields can produce the same key (the fields are
  joined by \<open>-\<close>, which they may contain) and then its values are the ones stored.
\<close>

theorem grouping_overwrite_counterexample:
  "run_applications zero_Sum [exact ''web''] ''My App''
     [document ''o'' ''r'' ''main'' [''web''] ''a.yaml'',
      document ''o'' ''r'' ''main'' [''web''] ''b.yaml''] =
     Some (map_of [(''My-App'', map_of [])]) \<and>
   run_applications zero_Sum [] ''My App''
     [document ''openshift'' ''knative-eventing'' ''main'' [''x''] ''a.yaml'',
      document ''openshift'' ''knative-eventing'' ''main'' [''x''] ''b.yaml'',
      document ''openshift-knative'' ''eventing'' ''main'' [''x''] ''c.yaml''] =
     Some (map_of [(''My-App'', map_of [(''openshift-knative-eventing-main-x'',
       \<lparr>ApplicationName = ''My App'',
        ReleaseBuildConfiguration =
          \<lparr>Metadata = \<lparr>Org = ''openshift-knative'', Repo = ''eventing'', Branch = ''main''\<rparr>,
           Images = [\<lparr>To = ''x''\<rparr>]\<rparr>,
        Path = ''c.yaml'',
        ProjectDirectoryImageBuildStepConfiguration = \<lparr>To = ''x''\<rparr>\<rparr>)])])"
  by (simp add: run_applications_My_App example_defs)

text \<open>
  C5, as the code has it. Let a build step \<open>ib\<close> of document \<open>d\<close> match no exclude-image
  pattern, and let no later step (in \<open>d\<close> after \<open>ib\<close>, or in a document after \<open>d\<close>)
  that matches no exclude-image pattern have the same component key. Then the grouping
  loop returns normally, and the entry under that component key is the record built from
  \<open>d\<close> and \<open>ib\<close>, whatever earlier documents wrote under the key: the last write wins and
  nothing reports the overwriting.
\<close>

theorem grouping_last_write_wins:
  assumes "configs = pre @ d # post"
    and "Images (Config.ReleaseBuildConfiguration d) = before @ ib # after"
    and "\<not> (\<exists>p\<in>set excludeImages. MatchString p (To ib))"
    and "\<forall>ib'\<in>set after.
           dockerfileComponentKey (Config.ReleaseBuildConfiguration d) ib' =
           dockerfileComponentKey (Config.ReleaseBuildConfiguration d) ib \<longrightarrow>
             (\<exists>p\<in>set excludeImages. MatchString p (To ib'))"
    and "\<forall>d'\<in>set post. \<forall>ib'\<in>set (Images (Config.ReleaseBuildConfiguration d')).
           dockerfileComponentKey (Config.ReleaseBuildConfiguration d') ib' =
           dockerfileComponentKey (Config.ReleaseBuildConfiguration d) ib \<longrightarrow>
             (\<exists>p\<in>set excludeImages. MatchString p (To ib'))"
  shows "\<exists>appKey apps components.
     truncate md5_Sum (sanitize applicationName) = Some appKey \<and>
     run_applications md5_Sum excludeImages applicationName configs = Some apps \<and>
     apps appKey = Some components \<and>
     components (dockerfileComponentKey (Config.ReleaseBuildConfiguration d) ib) =
       Some \<lparr>ApplicationName = applicationName,
             ReleaseBuildConfiguration = Config.ReleaseBuildConfiguration d,
             Path = Config.Path d,
             ProjectDirectoryImageBuildStepConfiguration = ib\<rparr>"
proof -
  let ?k = "dockerfileComponentKey (Config.ReleaseBuildConfiguration d) ib"
  let ?r = "component_of applicationName d ib"
  let ?sw = "step_writes excludeImages applicationName d"
  let ?aw = "all_writes excludeImages applicationName"
  obtain ak where ak: "truncate md5_Sum (sanitize applicationName) = Some ak"
    using truncate_total by blast
  have ne: "configs \<noteq> []"
    using assms(1) by simp
  have run: "run_applications md5_Sum excludeImages applicationName configs =
      Some [ak \<mapsto> map_of (rev (?aw configs))]"
    by (rule run_applications_eq [OF ak ne])
  have "?sw (before @ ib # after) = ?sw before @ (?k, ?r) # ?sw after"
    using assms(3) by (simp add: step_writes_append step_writes_Cons ignore_eq)
  then have split: "?aw configs = (?aw pre @ ?sw before) @ (?k, ?r) # (?sw after @ ?aw post)"
    by (simp add: assms(1,2) all_writes_append all_writes_Cons)
  have "?k \<notin> fst ` set (?sw after)"
  proof
    assume "?k \<in> fst ` set (?sw after)"
    then obtain r where "(?k, r) \<in> set (?sw after)"
      by force
    then obtain ib' where "ib' \<in> set after"
      "\<not> (\<exists>p\<in>set excludeImages. MatchString p (To ib'))"
      "dockerfileComponentKey (Config.ReleaseBuildConfiguration d) ib' = ?k"
      unfolding step_writes_mem by metis
    with assms(4) show False
      by blast
  qed
  moreover have "?k \<notin> fst ` set (?aw post)"
  proof
    assume "?k \<in> fst ` set (?aw post)"
    then obtain r where "(?k, r) \<in> set (?aw post)"
      by force
    then obtain d' ib' where "d' \<in> set post"
      "ib' \<in> set (Images (Config.ReleaseBuildConfiguration d'))"
      "\<not> (\<exists>p\<in>set excludeImages. MatchString p (To ib'))"
      "dockerfileComponentKey (Config.ReleaseBuildConfiguration d') ib' = ?k"
      unfolding all_writes_mem by metis
    with assms(5) show False
      by blast
  qed
  ultimately have "?k \<notin> fst ` set (?sw after @ ?aw post)"
    by (simp add: image_Un)
  then have "map_of (rev (?aw configs)) ?k = Some ?r"
    unfolding split by (rule map_of_rev_last)
  moreover have "[ak \<mapsto> map_of (rev (?aw configs))] ak = Some (map_of (rev (?aw configs)))"
    by (simp only: fun_upd_same)
  ultimately show ?thesis
    using ak run unfolding component_of_def by blast
qed

text \<open>
  A run of C5: two documents with the same four fields; the entry holds the path and
  the steps of the second.
\<close>

theorem grouping_last_write_wins_witness:
  "(\<exists>appKey apps components.
      truncate zero_Sum (sanitize ''My App'') = Some appKey \<and>
      run_applications zero_Sum [exact ''worker''] ''My App''
        [document ''o'' ''r'' ''main'' [''web''] ''a.yaml'',
         document ''o'' ''r'' ''main'' [''web'', ''worker''] ''b.yaml''] = Some apps \<and>
      apps appKey = Some components \<and>
      components ''o-r-main-web'' =
        Some \<lparr>ApplicationName = ''My App'',
              ReleaseBuildConfiguration =
                \<lparr>Metadata = \<lparr>Org = ''o'', Repo = ''r'', Branch = ''main''\<rparr>,
                 Images = [\<lparr>To = ''web''\<rparr>, \<lparr>To = ''worker''\<rparr>]\<rparr>,
              Path = ''b.yaml'',
              ProjectDirectoryImageBuildStepConfiguration = \<lparr>To = ''web''\<rparr>\<rparr>) \<and>
   run_applications zero_Sum [exact ''worker''] ''My App''
     [document ''o'' ''r'' ''main'' [''web''] ''a.yaml'',
      document ''o'' ''r'' ''main'' [''web'', ''worker''] ''b.yaml''] =
     Some (map_of [(''My-App'', map_of [(''o-r-main-web'',
       \<lparr>ApplicationName = ''My App'',
        ReleaseBuildConfiguration =
          \<lparr>Metadata = \<lparr>Org = ''o'', Repo = ''r'', Branch = ''main''\<rparr>,
           Images = [\<lparr>To = ''web''\<rparr>, \<lparr>To = ''worker''\<rparr>]\<rparr>,
        Path = ''b.yaml'',
        ProjectDirectoryImageBuildStepConfiguration = \<lparr>To = ''web''\<rparr>\<rparr>)])])"
proof -
  let ?a = "document ''o'' ''r'' ''main'' [''web''] ''a.yaml''"
  let ?b = "document ''o'' ''r'' ''main'' [''web'', ''worker''] ''b.yaml''"
  have "\<exists>appKey apps components.
      truncate zero_Sum (sanitize ''My App'') = Some appKey \<and>
      run_applications zero_Sum [exact ''worker''] ''My App'' [?a, ?b] = Some apps \<and>
      apps appKey = Some components \<and>
      components (dockerfileComponentKey (Config.ReleaseBuildConfiguration ?b) \<lparr>To = ''web''\<rparr>) =
        Some \<lparr>ApplicationName = ''My App'',
              ReleaseBuildConfiguration = Config.ReleaseBuildConfiguration ?b,
              Path = Config.Path ?b,
              ProjectDirectoryImageBuildStepConfiguration = \<lparr>To = ''web''\<rparr>\<rparr>"
    by (rule grouping_last_write_wins [of "[?a, ?b]" "[?a]" ?b "[]" "[]" "\<lparr>To = ''web''\<rparr>"
          "[\<lparr>To = ''worker''\<rparr>]" "[exact ''worker'']" zero_Sum "''My App''"])
       (simp_all add: example_defs)
  then have "\<exists>appKey apps components.
      truncate zero_Sum (sanitize ''My App'') = Some appKey \<and>
      run_applications zero_Sum [exact ''worker''] ''My App'' [?a, ?b] = Some apps \<and>
      apps appKey = Some components \<and>
      components ''o-r-main-web'' =
        Some \<lparr>ApplicationName = ''My App'',
              ReleaseBuildConfiguration =
                \<lparr>Metadata = \<lparr>Org = ''o'', Repo = ''r'', Branch = ''main''\<rparr>,
                 Images = [\<lparr>To = ''web''\<rparr>, \<lparr>To = ''worker''\<rparr>]\<rparr>,
              Path = ''b.yaml'',
              ProjectDirectoryImageBuildStepConfiguration = \<lparr>To = ''web''\<rparr>\<rparr>"
    by (simp add: document_def dockerfileComponentKey_def)
  moreover have "run_applications zero_Sum [exact ''worker''] ''My App'' [?a, ?b] =
     Some (map_of [(''My-App'', map_of [(''o-r-main-web'',
       \<lparr>ApplicationName = ''My App'',
        ReleaseBuildConfiguration =
          \<lparr>Metadata = \<lparr>Org = ''o'', Repo = ''r'', Branch = ''main''\<rparr>,
           Images = [\<lparr>To = ''web''\<rparr>, \<lparr>To = ''worker''\<rparr>]\<rparr>,
        Path = ''b.yaml'',
        ProjectDirectoryImageBuildStepConfiguration = \<lparr>To = ''web''\<rparr>\<rparr>)])])"
    by (simp add: run_applications_My_App example_defs)
  ultimately show ?thesis ..
qed

end
